theory Spec2Isabelle
  imports Complex_Main "HOL-Library.Multiset" "HOL-Library.Char_ord" "HOL-Library.List_Lexorder"
begin

unbundle bit_operations_syntax

section \<open>The genetic algorithm of q1_ai_lab_test.py\<close>

text \<open>
  The module fixes its parameters as constants (\<^verbatim>\<open>POP_SIZE\<close>, \<^verbatim>\<open>GENE_LENGTH\<close>, ...) and
  draws every random number from one module-level generator
  \<^verbatim>\<open>rng = np.random.default_rng(SEED)\<close>. The functions below read the constants from a
  record and take the state of the generator as an argument, returning the new state, so
  that every draw of the source is a step of the model, in the source's order.

  The two constants \<^verbatim>\<open>FITNESS_PEAKS_AT_ONES\<close> and \<^verbatim>\<open>MAX_FITNESS\<close> are read by no function and
  are left out. The calls to the dashboard (\<^verbatim>\<open>st.progress\<close>) compute nothing and are left out.
\<close>

subsection \<open>Errors, parameters, data\<close>

datatype error = ValueError | IndexError | TypeError

record config =
  POP_SIZE :: nat
  GENE_LENGTH :: nat
  MAX_GEN :: nat
  PC :: real
  PM :: real
  ELITE :: nat
  TOUR_K :: nat
  SEED :: nat

text \<open>The values of the source; 0.9 and 0.01 are the doubles Python reads them as.\<close>

definition source_config :: config where
  "source_config =
     \<lparr>POP_SIZE = 300, GENE_LENGTH = 80, MAX_GEN = 50,
      PC = 8106479329266893 / 9007199254740992,
      PM = 5764607523034235 / 576460752303423488,
      ELITE = 2, TOUR_K = 3, SEED = 42\<rparr>"

type_synonym genome = "nat list"
type_synonym population = "genome list"

record generation_record =
  Generation :: nat
  Best_Fitness :: nat
  Average_Fitness :: real

subsection \<open>The numpy calls the module makes\<close>

text \<open>
  numpy is not part of the repository. Its generator and its sort are parameters of the
  model: a record of the five calls the source makes, over any type \<open>'g\<close> of generator
  states.
  \<^item> \<open>default_rng seed\<close>: the state of a freshly seeded generator;
  \<^item> \<open>rng_integers lo hi n\<close>: \<^verbatim>\<open>rng.integers(lo, hi, n)\<close>, for \<open>lo < hi\<close>;
  \<^item> \<open>rng_random\<close>: \<^verbatim>\<open>rng.random()\<close>, one double;
  \<^item> \<open>rng_random_n n\<close>: \<^verbatim>\<open>rng.random(n)\<close>, an array of \<open>n\<close> doubles;
  \<^item> \<open>rng_choice n k\<close>: \<^verbatim>\<open>rng.choice(n, k, replace=False)\<close>, for \<open>k \<le> n\<close>;
  \<^item> \<open>np_argsort\<close>: \<^verbatim>\<open>np.argsort\<close> with its default sort.
  A double is modelled by the real number it denotes; the source only compares doubles.
\<close>

record 'g numpy =
  default_rng :: "nat \<Rightarrow> 'g"
  rng_integers :: "nat \<Rightarrow> nat \<Rightarrow> nat \<Rightarrow> 'g \<Rightarrow> nat list \<times> 'g"
  rng_random :: "'g \<Rightarrow> real \<times> 'g"
  rng_random_n :: "nat \<Rightarrow> 'g \<Rightarrow> real list \<times> 'g"
  rng_choice :: "nat \<Rightarrow> nat \<Rightarrow> 'g \<Rightarrow> nat list \<times> 'g"
  np_argsort :: "nat list \<Rightarrow> nat list"

text \<open>
  What numpy documents of these calls: bounded integers lie in \<open>[lo, hi)\<close>, doubles in
  \<open>[0, 1)\<close>, a choice without replacement is \<open>k\<close> distinct indices below \<open>n\<close>, and argsort
  returns a permutation of the indices that puts the values in ascending order. The
  default sort of argsort is not stable: nothing is said of the order of equal values.
\<close>

definition numpy_ok :: "'g numpy \<Rightarrow> bool" where
  "numpy_ok R \<longleftrightarrow>
     (\<forall>lo hi n g. lo < hi \<longrightarrow>
        length (fst (rng_integers R lo hi n g)) = n \<and>
        (\<forall>x \<in> set (fst (rng_integers R lo hi n g)). lo \<le> x \<and> x < hi)) \<and>
     (\<forall>g. 0 \<le> fst (rng_random R g) \<and> fst (rng_random R g) < 1) \<and>
     (\<forall>n g. length (fst (rng_random_n R n g)) = n \<and>
        (\<forall>u \<in> set (fst (rng_random_n R n g)). 0 \<le> u \<and> u < 1)) \<and>
     (\<forall>n k g. k \<le> n \<longrightarrow>
        length (fst (rng_choice R n k g)) = k \<and>
        distinct (fst (rng_choice R n k g)) \<and>
        (\<forall>i \<in> set (fst (rng_choice R n k g)). i < n)) \<and>
     (\<forall>fit. distinct (np_argsort R fit) \<and>
        set (np_argsort R fit) = {..<length fit} \<and>
        sorted (map (\<lambda>i. fit ! i) (np_argsort R fit)))"

subsection \<open>Array operations\<close>

text \<open>\<^verbatim>\<open>xs[i:j]\<close> for indices that are not negative.\<close>

definition slice :: "nat \<Rightarrow> nat \<Rightarrow> 'a list \<Rightarrow> 'a list" where
  "slice i j xs = take (j - i) (drop i xs)"

text \<open>
  \<^verbatim>\<open>xs[-e:]\<close>: the last \<open>e\<close> elements, all of them when there are fewer; and, \<open>-0\<close> being
  \<open>0\<close>, the whole of \<open>xs\<close> when \<open>e\<close> is \<open>0\<close>.
\<close>

definition last_slice :: "nat \<Rightarrow> 'a list \<Rightarrow> 'a list" where
  "last_slice e xs = (if e = 0 then xs else drop (length xs - e) xs)"

text \<open>\<^verbatim>\<open>xs[idx]\<close> for an array of indices: a copy of the chosen rows.\<close>

definition fancy_index :: "'a list \<Rightarrow> nat list \<Rightarrow> error + 'a list" where
  "fancy_index xs idx =
     (if \<forall>i \<in> set idx. i < length xs then Inr (map (\<lambda>i. xs ! i) idx) else Inl IndexError)"

text \<open>An array of \<open>n * l\<close> values read as \<open>n\<close> rows of \<open>l\<close>, in the order drawn.\<close>

fun reshape :: "nat \<Rightarrow> nat \<Rightarrow> 'a list \<Rightarrow> 'a list list" where
  "reshape 0 l xs = []"
| "reshape (Suc n) l xs = take l xs # reshape n l (drop l xs)"

text \<open>\<^verbatim>\<open>fit.max()\<close> and \<^verbatim>\<open>np.argmax\<close> (the first index of the maximum), on an array that is not empty.\<close>

definition max_list :: "nat list \<Rightarrow> nat" where
  "max_list xs = fold max (tl xs) (hd xs)"

definition argmax :: "nat list \<Rightarrow> nat" where
  "argmax xs = length (takeWhile (\<lambda>x. x \<noteq> max_list xs) xs)"

text \<open>
  \<^verbatim>\<open>fit.mean()\<close>: the sum of the integers is exact, and the double returned is the
  one nearest to the quotient below.
\<close>

definition mean :: "nat list \<Rightarrow> real" where
  "mean xs = real (sum_list xs) / real (length xs)"

text \<open>
  \<^verbatim>\<open>np.vstack([new_population, elites])\<close>: the list of children becomes a matrix (one
  empty row when the list is empty) and the rows of both must have one width.
\<close>

definition vstack :: "genome list \<Rightarrow> genome list \<Rightarrow> error + population" where
  "vstack new_population elites =
     (let a = (if new_population = [] then [[]] else new_population) in
      if \<forall>r \<in> set (a @ elites). length r = length (hd a) then Inr (a @ elites)
      else Inl ValueError)"

subsection \<open>The operators\<close>

definition fitness :: "population \<Rightarrow> nat list" where
  "fitness pop = map sum_list pop"

definition init_population :: "'g numpy \<Rightarrow> config \<Rightarrow> 'g \<Rightarrow> error + (population \<times> 'g)" where
  "init_population R cfg g =
     (case rng_integers R 0 2 (POP_SIZE cfg * GENE_LENGTH cfg) g of
        (bits, g') \<Rightarrow> Inr (reshape (POP_SIZE cfg) (GENE_LENGTH cfg) bits, g'))"

text \<open>
  \<^verbatim>\<open>rng.choice\<close> raises when asked for more indices than there are, and \<^verbatim>\<open>np.argmax\<close>
  raises on no candidate at all.
\<close>

definition tournament_selection ::
  "'g numpy \<Rightarrow> config \<Rightarrow> population \<Rightarrow> nat list \<Rightarrow> 'g \<Rightarrow> error + (genome \<times> 'g)" where
  "tournament_selection R cfg pop fit g =
     (if length pop < TOUR_K cfg then Inl ValueError
      else case rng_choice R (length pop) (TOUR_K cfg) g of
        (candidates, g') \<Rightarrow>
          (case fancy_index fit candidates of
             Inl e \<Rightarrow> Inl e
           | Inr cand_fit \<Rightarrow>
               if cand_fit = [] then Inl ValueError
               else Inr (pop ! (candidates ! argmax cand_fit), g')))"

text \<open>
  \<^verbatim>\<open>rng.integers(1, GENE_LENGTH, 2)\<close> raises when \<open>GENE_LENGTH \<le> 1\<close>; the two values drawn
  are sorted and unpacked.
\<close>

definition two_point :: "genome \<Rightarrow> genome \<Rightarrow> nat \<Rightarrow> nat \<Rightarrow> genome" where
  "two_point p1 p2 p1_idx p2_idx = take p1_idx p1 @ slice p1_idx p2_idx p2 @ drop p2_idx p1"

definition crossover ::
  "'g numpy \<Rightarrow> config \<Rightarrow> genome \<Rightarrow> genome \<Rightarrow> 'g \<Rightarrow> error + ((genome \<times> genome) \<times> 'g)" where
  "crossover R cfg p1 p2 g =
     (case rng_random R g of
        (u, g1) \<Rightarrow>
          if u < PC cfg then
            (if GENE_LENGTH cfg \<le> 1 then Inl ValueError
             else case rng_integers R 1 (GENE_LENGTH cfg) 2 g1 of
               (cuts, g2) \<Rightarrow>
                 (case sort cuts of
                    [p1_idx, p2_idx] \<Rightarrow>
                      Inr ((two_point p1 p2 p1_idx p2_idx, two_point p2 p1 p1_idx p2_idx), g2)
                  | _ \<Rightarrow> Inl ValueError))
          else Inr ((p1, p2), g1))"

text \<open>
  The mask \<open>flip\<close> has \<open>GENE_LENGTH\<close> entries; indexing a child of another length with it
  raises. The child is a fresh array (a concatenation or a copy), so writing into it
  changes no row of the population.
\<close>

definition mutation :: "'g numpy \<Rightarrow> config \<Rightarrow> genome \<Rightarrow> 'g \<Rightarrow> error + (genome \<times> 'g)" where
  "mutation R cfg child g =
     (case rng_random_n R (GENE_LENGTH cfg) g of
        (us, g') \<Rightarrow>
          (let flip = map (\<lambda>u. u < PM cfg) us in
           if length flip \<noteq> length child then Inl IndexError
           else Inr (map (\<lambda>(f, x). if f then x XOR 1 else x) (zip flip child), g')))"

subsection \<open>The generation loop\<close>

text \<open>
  The \<^verbatim>\<open>while\<close> loop of \<^verbatim>\<open>run_ga\<close> that fills \<open>new_population\<close>. \<^verbatim>\<open>POP_SIZE - ELITE\<close> is a
  Python integer and may be negative. The second child is mutated only when it is kept.
\<close>

function offspring ::
  "'g numpy \<Rightarrow> config \<Rightarrow> population \<Rightarrow> nat list \<Rightarrow> genome list \<Rightarrow> 'g \<Rightarrow>
     error + (genome list \<times> 'g)" where
  "offspring R cfg pop fit new_population g =
     (if int (length new_population) < int (POP_SIZE cfg) - int (ELITE cfg) then
        (case tournament_selection R cfg pop fit g of
           Inl e \<Rightarrow> Inl e
         | Inr (parent1, g1) \<Rightarrow>
        (case tournament_selection R cfg pop fit g1 of
           Inl e \<Rightarrow> Inl e
         | Inr (parent2, g2) \<Rightarrow>
        (case crossover R cfg parent1 parent2 g2 of
           Inl e \<Rightarrow> Inl e
         | Inr ((child1, child2), g3) \<Rightarrow>
        (case mutation R cfg child1 g3 of
           Inl e \<Rightarrow> Inl e
         | Inr (m1, g4) \<Rightarrow>
             if int (length (new_population @ [m1])) < int (POP_SIZE cfg) - int (ELITE cfg) then
               (case mutation R cfg child2 g4 of
                  Inl e \<Rightarrow> Inl e
                | Inr (m2, g5) \<Rightarrow> offspring R cfg pop fit (new_population @ [m1, m2]) g5)
             else offspring R cfg pop fit (new_population @ [m1]) g4))))
      else Inr (new_population, g))"
  by pat_completeness auto
termination
  by (relation "measure (\<lambda>(R, cfg, pop, fit, new_population, g).
        nat (int (POP_SIZE cfg) - int (ELITE cfg)) - length new_population)") auto

declare offspring.simps [simp del]

text \<open>
  The elites of a population: the rows at the last \<open>ELITE\<close> positions of the argsort of
  its fitness.
\<close>

definition elite_idx :: "'g numpy \<Rightarrow> config \<Rightarrow> nat list \<Rightarrow> nat list" where
  "elite_idx R cfg fit = last_slice (ELITE cfg) (np_argsort R fit)"

text \<open>
  One turn of the \<^verbatim>\<open>for\<close> loop: the record appended to the history, the next population
  and the generator. \<^verbatim>\<open>fit.max()\<close> raises on an empty population.
\<close>

definition generation ::
  "'g numpy \<Rightarrow> config \<Rightarrow> nat \<Rightarrow> population \<Rightarrow> 'g \<Rightarrow>
     error + (generation_record \<times> population \<times> 'g)" where
  "generation R cfg gen population g =
     (let fit = fitness population in
      if fit = [] then Inl ValueError
      else
        (case fancy_index population (elite_idx R cfg fit) of
           Inl e \<Rightarrow> Inl e
         | Inr elites \<Rightarrow>
        (case offspring R cfg population fit [] g of
           Inl e \<Rightarrow> Inl e
         | Inr (new_population, g') \<Rightarrow>
        (case vstack new_population elites of
           Inl e \<Rightarrow> Inl e
         | Inr population' \<Rightarrow>
             Inr (\<lparr>Generation = gen + 1, Best_Fitness = max_list fit,
                   Average_Fitness = mean fit\<rparr>, population', g')))))"

text \<open>\<^verbatim>\<open>for gen in range(MAX_GEN)\<close>, on the list of the values \<open>gen\<close> takes.\<close>

fun ga_loop ::
  "'g numpy \<Rightarrow> config \<Rightarrow> nat list \<Rightarrow> population \<Rightarrow> generation_record list \<Rightarrow> 'g \<Rightarrow>
     error + (generation_record list \<times> population \<times> 'g)" where
  "ga_loop R cfg [] population history g = Inr (history, population, g)"
| "ga_loop R cfg (gen # gens) population history g =
     (case generation R cfg gen population g of
        Inl e \<Rightarrow> Inl e
      | Inr (r, population', g') \<Rightarrow> ga_loop R cfg gens population' (history @ [r]) g')"

text \<open>
  \<^verbatim>\<open>run_ga\<close> returns the history, the best row of the last population and its fitness;
  the model returns the state of the generator as well. \<^verbatim>\<open>np.argmax\<close> raises on an empty
  population.
\<close>

definition run_ga ::
  "'g numpy \<Rightarrow> config \<Rightarrow> 'g \<Rightarrow> error + ((generation_record list \<times> genome \<times> nat) \<times> 'g)" where
  "run_ga R cfg g =
     (case init_population R cfg g of
        Inl e \<Rightarrow> Inl e
      | Inr (population0, g0) \<Rightarrow>
     (case ga_loop R cfg [0..<MAX_GEN cfg] population0 [] g0 of
        Inl e \<Rightarrow> Inl e
      | Inr (history, population, g1) \<Rightarrow>
          (let final_fit = fitness population in
           if final_fit = [] then Inl ValueError
           else
             (let best_index = argmax final_fit in
              Inr ((history, population ! best_index, final_fit ! best_index), g1)))))"

text \<open>
  One execution of the script: the module is loaded, which seeds the generator, and the
  button calls \<^verbatim>\<open>run_ga\<close> once. The dashboard reruns the whole script at every click.
\<close>

definition execution ::
  "'g numpy \<Rightarrow> config \<Rightarrow> error + (generation_record list \<times> genome \<times> nat)" where
  "execution R cfg =
     (case run_ga R cfg (default_rng R (SEED cfg)) of
        Inl e \<Rightarrow> Inl e
      | Inr (result, g) \<Rightarrow> Inr result)"

text \<open>
  The populations a run goes through, in order: generation 0, then the population each
  turn of the loop builds; the list ends where the run raises.
\<close>

fun pop_trace :: "'g numpy \<Rightarrow> config \<Rightarrow> nat list \<Rightarrow> population \<Rightarrow> 'g \<Rightarrow> population list" where
  "pop_trace R cfg [] population g = [population]"
| "pop_trace R cfg (gen # gens) population g =
     population #
       (case generation R cfg gen population g of
          Inl e \<Rightarrow> []
        | Inr (r, population', g') \<Rightarrow> pop_trace R cfg gens population' g')"

definition populations :: "'g numpy \<Rightarrow> config \<Rightarrow> 'g \<Rightarrow> population list" where
  "populations R cfg g =
     (case init_population R cfg g of
        Inl e \<Rightarrow> []
      | Inr (population0, g0) \<Rightarrow> pop_trace R cfg [0..<MAX_GEN cfg] population0 g0)"

text \<open>A population of exactly \<open>POP_SIZE\<close> genomes, each of length \<open>GENE_LENGTH\<close>.\<close>

definition shaped :: "config \<Rightarrow> population \<Rightarrow> bool" where
  "shaped cfg pop \<longleftrightarrow> length pop = POP_SIZE cfg \<and> (\<forall>x \<in> set pop. length x = GENE_LENGTH cfg)"

section \<open>The rule engine of q2_ai_lab_test_.py\<close>

subsection \<open>Values and comparisons\<close>

text \<open>
  The values the facts and the rules of the module hold: integers, strings, booleans
  and \<^verbatim>\<open>None\<close>. Python compares a boolean as the integer \<open>0\<close> or \<open>1\<close>, strings by their
  characters in order, and raises \<^verbatim>\<open>TypeError\<close> when asked to order a string against a
  number or anything against \<^verbatim>\<open>None\<close>; equality never raises.
\<close>

datatype pyval = PInt int | PStr string | PBool bool | PNone

fun num_of :: "pyval \<Rightarrow> int option" where
  "num_of (PInt i) = Some i"
| "num_of (PBool b) = Some (if b then 1 else 0)"
| "num_of (PStr s) = None"
| "num_of PNone = None"

fun py_eq :: "pyval \<Rightarrow> pyval \<Rightarrow> bool" where
  "py_eq (PStr s) (PStr t) = (s = t)"
| "py_eq PNone PNone = True"
| "py_eq a b = (case (num_of a, num_of b) of (Some i, Some j) \<Rightarrow> i = j | _ \<Rightarrow> False)"

fun py_order ::
  "(int \<Rightarrow> int \<Rightarrow> bool) \<Rightarrow> (string \<Rightarrow> string \<Rightarrow> bool) \<Rightarrow> pyval \<Rightarrow> pyval \<Rightarrow> error + bool" where
  "py_order on_int on_str (PStr s) (PStr t) = Inr (on_str s t)"
| "py_order on_int on_str a b =
     (case (num_of a, num_of b) of
        (Some i, Some j) \<Rightarrow> Inr (on_int i j)
      | _ \<Rightarrow> Inl TypeError)"

type_synonym operator = "pyval \<Rightarrow> pyval \<Rightarrow> error + bool"

definition OPS :: "string \<rightharpoonup> operator" where
  "OPS =
     [''=='' \<mapsto> (\<lambda>a b. Inr (py_eq a b)),
      ''!='' \<mapsto> (\<lambda>a b. Inr (\<not> py_eq a b)),
      ''>'' \<mapsto> py_order (\<lambda>i j. i > j) (\<lambda>s t. s > t),
      ''>='' \<mapsto> py_order (\<lambda>i j. i \<ge> j) (\<lambda>s t. s \<ge> t),
      ''<'' \<mapsto> py_order (\<lambda>i j. i < j) (\<lambda>s t. s < t),
      ''<='' \<mapsto> py_order (\<lambda>i j. i \<le> j) (\<lambda>s t. s \<le> t)]"

subsection \<open>Rules\<close>

record action =
  mode :: string
  fan_speed :: string
  setpoint :: "int option"
  reason :: string

type_synonym condition = "string \<times> string \<times> pyval"

record rule =
  name :: string
  priority :: int
  conditions :: "condition list"
  action :: action

type_synonym facts = "string \<rightharpoonup> pyval"

definition evaluate_condition :: "facts \<Rightarrow> condition \<Rightarrow> error + bool" where
  "evaluate_condition facts cond =
     (case cond of
        (field, op, v) \<Rightarrow>
          (case (facts field, OPS op) of
             (Some x, Some f) \<Rightarrow> f x v
           | _ \<Rightarrow> Inr False))"

text \<open>
  \<^verbatim>\<open>all(...)\<close> over a generator: the conditions are evaluated in order and the first
  false one ends the scan.
\<close>

fun all_conditions :: "facts \<Rightarrow> condition list \<Rightarrow> error + bool" where
  "all_conditions facts [] = Inr True"
| "all_conditions facts (c # cs) =
     (case evaluate_condition facts c of
        Inl e \<Rightarrow> Inl e
      | Inr b \<Rightarrow> if b then all_conditions facts cs else Inr False)"

definition rule_matches :: "facts \<Rightarrow> rule \<Rightarrow> error + bool" where
  "rule_matches facts r = all_conditions facts (conditions r)"

text \<open>The list comprehension \<^verbatim>\<open>[r for r in rules if rule_matches(facts, r)]\<close>.\<close>

fun matching :: "facts \<Rightarrow> rule list \<Rightarrow> error + rule list" where
  "matching facts [] = Inr []"
| "matching facts (r # rs) =
     (case rule_matches facts r of
        Inl e \<Rightarrow> Inl e
      | Inr b \<Rightarrow>
          (case matching facts rs of
             Inl e \<Rightarrow> Inl e
           | Inr ms \<Rightarrow> Inr (if b then r # ms else ms)))"

definition default_action :: action where
  "default_action =
     \<lparr>mode = ''OFF'', fan_speed = ''AUTO'', setpoint = None, reason = ''No rule satisfied''\<rparr>"

text \<open>
  \<^verbatim>\<open>list.sort(key=..., reverse=True)\<close> is the stable ascending sort of the reversed
  list, reversed again.
\<close>

definition sort_reverse :: "('a \<Rightarrow> int) \<Rightarrow> 'a list \<Rightarrow> 'a list" where
  "sort_reverse key xs = rev (sort_key key (rev xs))"

definition run_rules :: "facts \<Rightarrow> rule list \<Rightarrow> error + (action \<times> rule list)" where
  "run_rules facts rules =
     (case matching facts rules of
        Inl e \<Rightarrow> Inl e
      | Inr matched_rules \<Rightarrow>
          if matched_rules = [] then Inr (default_action, [])
          else
            (let sorted_rules = sort_reverse priority matched_rules in
             Inr (action (hd sorted_rules), sorted_rules)))"

text \<open>The rule base of the module; the arrow in a name is its three bytes of UTF-8.\<close>

definition arrow :: string where
  "arrow = [CHR 0xE2, CHR 0x86, CHR 0x92]"

definition DEFAULT_RULES :: "rule list" where
  "DEFAULT_RULES =
     [\<lparr>name = ''Windows open '' @ arrow @ '' AC OFF'', priority = 110,
       conditions = [(''windows_open'', ''=='', PBool True)],
       action = \<lparr>mode = ''OFF'', fan_speed = ''AUTO'', setpoint = None,
                  reason = ''Cooling disabled because windows are open''\<rparr>\<rparr>,
      \<lparr>name = ''Empty house '' @ arrow @ '' Eco mode'', priority = 95,
       conditions = [(''occupancy'', ''=='', PStr ''EMPTY''), (''temperature'', ''>='', PInt 24)],
       action = \<lparr>mode = ''ECO'', fan_speed = ''LOW'', setpoint = Some 27,
                  reason = ''No occupants, energy saving activated''\<rparr>\<rparr>,
      \<lparr>name = ''Hot & humid while occupied'', priority = 85,
       conditions = [(''occupancy'', ''=='', PStr ''OCCUPIED''), (''temperature'', ''>='', PInt 30),
                     (''humidity'', ''>='', PInt 70)],
       action = \<lparr>mode = ''COOL'', fan_speed = ''HIGH'', setpoint = Some 23,
                  reason = ''High temperature and humidity detected''\<rparr>\<rparr>,
      \<lparr>name = ''Hot while occupied'', priority = 75,
       conditions = [(''occupancy'', ''=='', PStr ''OCCUPIED''), (''temperature'', ''>='', PInt 28)],
       action = \<lparr>mode = ''COOL'', fan_speed = ''MEDIUM'', setpoint = Some 24,
                  reason = ''High temperature detected''\<rparr>\<rparr>,
      \<lparr>name = ''Warm while occupied'', priority = 65,
       conditions = [(''occupancy'', ''=='', PStr ''OCCUPIED''), (''temperature'', ''>='', PInt 26),
                     (''temperature'', ''<'', PInt 28)],
       action = \<lparr>mode = ''COOL'', fan_speed = ''LOW'', setpoint = Some 25,
                  reason = ''Moderately warm environment''\<rparr>\<rparr>,
      \<lparr>name = ''Night comfort mode'', priority = 80,
       conditions = [(''occupancy'', ''=='', PStr ''OCCUPIED''), (''time_of_day'', ''=='', PStr ''NIGHT''),
                     (''temperature'', ''>='', PInt 26)],
       action = \<lparr>mode = ''SLEEP'', fan_speed = ''LOW'', setpoint = Some 26,
                  reason = ''Night-time comfort optimization''\<rparr>\<rparr>,
      \<lparr>name = ''Too cold '' @ arrow @ '' system OFF'', priority = 90,
       conditions = [(''temperature'', ''<='', PInt 22)],
       action = \<lparr>mode = ''OFF'', fan_speed = ''AUTO'', setpoint = None,
                  reason = ''Temperature already low''\<rparr>\<rparr>]"

section \<open>A generator to run the model on\<close>

text \<open>
  A stand-in for numpy on which the functions above can be evaluated: the state of the
  generator is a tape of raw numbers, read from the front (and read as zeros once it is
  used up). An integer in \<open>[lo, hi)\<close> is \<open>lo\<close> plus a raw number modulo \<open>hi - lo\<close>; a double
  is a raw number modulo 1000, in thousandths; a choice of \<open>k\<close> of \<open>n\<close> indices is the first
  \<open>k\<close> of \<open>0, ..., n - 1\<close> rotated by a raw number; argsort is the insertion sort of the
  indices.
\<close>

definition draws :: "nat \<Rightarrow> nat list \<Rightarrow> nat list \<times> nat list" where
  "draws n tape = (take n (tape @ replicate n 0), drop n tape)"

definition tape_default_rng :: "nat \<Rightarrow> nat list" where
  "tape_default_rng seed = map (\<lambda>i. (seed + 1) * (i + 1) * 7919 mod 1009) [0..<64]"

definition tape_integers :: "nat \<Rightarrow> nat \<Rightarrow> nat \<Rightarrow> nat list \<Rightarrow> nat list \<times> nat list" where
  "tape_integers lo hi n tape =
     (map (\<lambda>x. lo + x mod (hi - lo)) (fst (draws n tape)), snd (draws n tape))"

definition tape_random :: "nat list \<Rightarrow> real \<times> nat list" where
  "tape_random tape = (real (hd (fst (draws 1 tape)) mod 1000) / 1000, snd (draws 1 tape))"

definition tape_random_n :: "nat \<Rightarrow> nat list \<Rightarrow> real list \<times> nat list" where
  "tape_random_n n tape =
     (map (\<lambda>x. real (x mod 1000) / 1000) (fst (draws n tape)), snd (draws n tape))"

definition tape_choice :: "nat \<Rightarrow> nat \<Rightarrow> nat list \<Rightarrow> nat list \<times> nat list" where
  "tape_choice n k tape =
     (take k (rotate (hd (fst (draws 1 tape))) [0..<n]), snd (draws 1 tape))"

definition tape_argsort :: "nat list \<Rightarrow> nat list" where
  "tape_argsort fit = sort_key (\<lambda>i. fit ! i) [0..<length fit]"

definition tape_numpy :: "nat list numpy" where
  "tape_numpy =
     \<lparr>default_rng = tape_default_rng, rng_integers = tape_integers, rng_random = tape_random,
      rng_random_n = tape_random_n, rng_choice = tape_choice, np_argsort = tape_argsort\<rparr>"

text \<open>Facts as the dashboard builds them: a hot, humid night in an occupied house.\<close>

definition hot_night :: facts where
  "hot_night =
     [''temperature'' \<mapsto> PInt 31, ''humidity'' \<mapsto> PInt 75, ''occupancy'' \<mapsto> PStr ''OCCUPIED'',
      ''time_of_day'' \<mapsto> PStr ''NIGHT'', ''windows_open'' \<mapsto> PBool False]"

text \<open>
  Two small parameter sets to run the model on, and a tape: four genomes of four bits
  with one elite over two generations; and two genomes of two bits with no elite.
\<close>

definition demo_config :: config where
  "demo_config = \<lparr>POP_SIZE = 4, GENE_LENGTH = 4, MAX_GEN = 2, PC = 9 / 10, PM = 1 / 10,
                   ELITE = 1, TOUR_K = 2, SEED = 7\<rparr>"

definition no_elite_config :: config where
  "no_elite_config = \<lparr>POP_SIZE = 2, GENE_LENGTH = 2, MAX_GEN = 1, PC = 0, PM = 0,
                       ELITE = 0, TOUR_K = 1, SEED = 7\<rparr>"

definition demo_tape :: "nat list" where
  "demo_tape = [794, 579, 364, 149, 943, 728, 513, 298, 83, 877, 662, 447, 232, 17, 811,
  596, 381, 166, 960, 745, 530, 315, 100, 894, 679, 464, 249, 34, 828, 613,
  398, 183, 977, 762, 547, 332, 117, 911, 696, 481, 266, 51, 845, 630, 415,
  200, 994, 779, 564, 349, 134, 928, 713, 498, 283, 68, 862, 647, 432, 217,
  2, 796, 581, 366]"

section \<open>Facts about the array operations and the stand-in generator\<close>

lemmas tape_defs =
  tape_numpy_def tape_integers_def tape_random_def tape_random_n_def tape_choice_def
  tape_argsort_def draws_def

lemma tape_numpy_ok: "numpy_ok tape_numpy"
proof -
  have m: "lo + x mod (hi - lo) < hi" if "lo < hi" for lo hi x :: nat
  proof -
    have "x mod (hi - lo) < hi - lo" using that by simp
    then show ?thesis by linarith
  qed
  show ?thesis
    unfolding numpy_ok_def tape_defs
    by (auto simp: sorted_sort_key m dest: in_set_takeD)
qed

lemma max_list_Max: "xs \<noteq> [] \<Longrightarrow> max_list xs = Max (set xs)"
  unfolding max_list_def using Max.set_eq_fold [of "hd xs" "tl xs"] by simp

lemma argmax_less: "xs \<noteq> [] \<Longrightarrow> argmax xs < length xs"
proof -
  assume ne: "xs \<noteq> []"
  then have "Max (set xs) \<in> set xs" by (intro Max_in) simp_all
  then have "\<exists>x\<in>set xs. \<not> x \<noteq> max_list xs" using ne by (simp add: max_list_Max)
  then have "takeWhile (\<lambda>x. x \<noteq> max_list xs) xs \<noteq> xs" by simp
  then have "length (takeWhile (\<lambda>x. x \<noteq> max_list xs) xs) \<noteq> length xs"
    by (metis takeWhile_eq_take take_all order_refl)
  then show ?thesis
    unfolding argmax_def
    using length_takeWhile_le [of "\<lambda>x. x \<noteq> max_list xs" xs] by linarith
qed

lemma argmax_nth: "xs \<noteq> [] \<Longrightarrow> xs ! argmax xs = Max (set xs)"
proof -
  assume ne: "xs \<noteq> []"
  from argmax_less[OF ne] have "argmax xs < length xs" .
  then have "\<not> (xs ! argmax xs \<noteq> max_list xs)"
    unfolding argmax_def by (rule nth_length_takeWhile)
  then show ?thesis using ne by (simp add: max_list_Max)
qed

lemma xor_one_bit: "x \<le> Suc 0 \<Longrightarrow> x XOR Suc 0 = Suc 0 - x"
proof -
  assume "x \<le> Suc 0"
  then have "x = 0 \<or> x = Suc 0" by auto
  then show ?thesis by auto
qed

lemma map_zip_const_False:
  "length fs = length xs \<Longrightarrow> \<forall>f\<in>set fs. \<not> f \<Longrightarrow>
   map (\<lambda>(f, x). if f then h x else x) (zip fs xs) = xs"
  by (induction fs xs rule: list_induct2) auto

lemma map_zip_const_True:
  "length fs = length xs \<Longrightarrow> \<forall>f\<in>set fs. f \<Longrightarrow>
   map (\<lambda>(f, x). if f then h x else x) (zip fs xs) = map h xs"
  by (induction fs xs rule: list_induct2) auto

section \<open>Mutation\<close>

text \<open>
  Claim C8. For every genome of length \<open>GENE_LENGTH\<close>: with mutation probability 0,
  \<open>mutation\<close> returns the genome it was given; with mutation probability 1 it returns the
  genome with every entry xor-ed with 1, which flips every entry that is a bit.
\<close>

theorem mutation_pm:
  assumes ok: "numpy_ok R" and len: "length child = GENE_LENGTH cfg"
  shows "mutation R (cfg\<lparr>PM := 0\<rparr>) child g =
           Inr (child, snd (rng_random_n R (GENE_LENGTH cfg) g)) \<and>
         mutation R (cfg\<lparr>PM := 1\<rparr>) child g =
           Inr (map (\<lambda>x. x XOR 1) child, snd (rng_random_n R (GENE_LENGTH cfg) g)) \<and>
         (\<forall>i < length child. child ! i \<le> 1 \<longrightarrow>
            map (\<lambda>x. x XOR 1) child ! i = 1 - child ! i)"
proof -
  obtain us g' where d: "rng_random_n R (GENE_LENGTH cfg) g = (us, g')"
    by (cases "rng_random_n R (GENE_LENGTH cfg) g")
  from ok have "length (fst (rng_random_n R (GENE_LENGTH cfg) g)) = GENE_LENGTH cfg"
    and "\<forall>u\<in>set (fst (rng_random_n R (GENE_LENGTH cfg) g)). 0 \<le> u \<and> u < 1"
    unfolding numpy_ok_def by blast+
  with d have lus: "length us = GENE_LENGTH cfg" and rng: "\<forall>u\<in>set us. 0 \<le> u \<and> u < 1"
    by simp_all
  have z: "mutation R (cfg\<lparr>PM := 0\<rparr>) child g = Inr (child, g')"
    using d lus len rng
    by (simp add: mutation_def map_zip_const_False not_less)
  have o: "mutation R (cfg\<lparr>PM := 1\<rparr>) child g = Inr (map (\<lambda>x. x XOR 1) child, g')"
    using d lus len rng
    by (simp add: mutation_def map_zip_const_True)
  show ?thesis using z o d by (simp add: xor_one_bit)
qed

text \<open>The theorem at the genome 1 0 1, for both probabilities.\<close>

theorem mutation_pm_witness:
  "mutation tape_numpy \<lparr>POP_SIZE = 4, GENE_LENGTH = 3, MAX_GEN = 1, PC = 0, PM = 0,
       ELITE = 1, TOUR_K = 2, SEED = 1\<rparr> [1, 0, 1] [5, 6, 7, 8] = Inr ([1, 0, 1], [8]) \<and>
   mutation tape_numpy \<lparr>POP_SIZE = 4, GENE_LENGTH = 3, MAX_GEN = 1, PC = 0, PM = 1,
       ELITE = 1, TOUR_K = 2, SEED = 1\<rparr> [1, 0, 1] [5, 6, 7, 8] = Inr ([0, 1, 0], [8])"
  using mutation_pm [OF tape_numpy_ok, of "[1, 0, 1]"
      "\<lparr>POP_SIZE = 4, GENE_LENGTH = 3, MAX_GEN = 1, PC = 0, PM = 0,
        ELITE = 1, TOUR_K = 2, SEED = 1\<rparr>" "[5, 6, 7, 8]"]
  by (simp add: tape_defs)

section \<open>Crossover\<close>

lemma sort_two: "sort [x, y] = [min x y, max x (y::nat)]"
  by (simp add: min_def max_def)

text \<open>
  Claim C2, as the code has it. For every pair of parents: with crossover probability 0
  the children are the parents. With crossover probability 1 and \<open>GENE_LENGTH \<ge> 2\<close> the
  two-point branch is always taken; its cut points \<open>p1 \<le> p2\<close> are the smaller and the
  larger of the two integers \<^verbatim>\<open>rng.integers(1, GENE_LENGTH, 2)\<close> draws, both in
  \<open>{1, ..., GENE_LENGTH - 1}\<close>, and the children are \<open>a[0:p1] ++ b[p1:p2] ++ a[p2:]\<close> and
  \<open>b[0:p1] ++ a[p1:p2] ++ b[p2:]\<close>. The two integers are drawn independently, so the
  cut points may coincide.
\<close>

theorem crossover_pc:
  assumes ok: "numpy_ok R"
  shows "crossover R (cfg\<lparr>PC := 0\<rparr>) a b g = Inr ((a, b), snd (rng_random R g)) \<and>
         (2 \<le> GENE_LENGTH cfg \<longrightarrow>
            (let drawn = rng_integers R 1 (GENE_LENGTH cfg) 2 (snd (rng_random R g));
                 p1 = min (fst drawn ! 0) (fst drawn ! 1);
                 p2 = max (fst drawn ! 0) (fst drawn ! 1)
             in 1 \<le> p1 \<and> p1 \<le> p2 \<and> p2 \<le> GENE_LENGTH cfg - 1 \<and>
                crossover R (cfg\<lparr>PC := 1\<rparr>) a b g =
                  Inr ((take p1 a @ slice p1 p2 b @ drop p2 a,
                        take p1 b @ slice p1 p2 a @ drop p2 b), snd drawn)))"
proof -
  obtain u g1 where r: "rng_random R g = (u, g1)" by (cases "rng_random R g")
  from ok have "0 \<le> fst (rng_random R g) \<and> fst (rng_random R g) < 1"
    unfolding numpy_ok_def by blast
  with r have u: "0 \<le> u" "u < 1" by simp_all
  have zero: "crossover R (cfg\<lparr>PC := 0\<rparr>) a b g = Inr ((a, b), snd (rng_random R g))"
    using r u by (simp add: crossover_def)
  have one: ?thesis if L: "2 \<le> GENE_LENGTH cfg"
  proof -
    obtain cuts g2 where d: "rng_integers R 1 (GENE_LENGTH cfg) 2 g1 = (cuts, g2)"
      by (cases "rng_integers R 1 (GENE_LENGTH cfg) 2 g1")
    from ok L have "length (fst (rng_integers R 1 (GENE_LENGTH cfg) 2 g1)) = 2"
      and "\<forall>x\<in>set (fst (rng_integers R 1 (GENE_LENGTH cfg) 2 g1)). 1 \<le> x \<and> x < GENE_LENGTH cfg"
      unfolding numpy_ok_def by (metis less_eq_Suc_le numeral_2_eq_2 One_nat_def)+
    with d have len: "length cuts = 2" and rng: "\<forall>x\<in>set cuts. 1 \<le> x \<and> x < GENE_LENGTH cfg"
      by simp_all
    from len obtain x y where c: "cuts = [x, y]"
      by (metis (no_types, opaque_lifting) length_0_conv length_Suc_conv numeral_2_eq_2)
    from rng c have b: "1 \<le> x" "x < GENE_LENGTH cfg" "1 \<le> y" "y < GENE_LENGTH cfg"
      by simp_all
    have "crossover R (cfg\<lparr>PC := 1\<rparr>) a b g =
            Inr ((two_point a b (min x y) (max x y), two_point b a (min x y) (max x y)), g2)"
      using r u d c L by (simp add: crossover_def sort_two del: sort_key_simps)
    with zero r d c b show ?thesis
      by (auto simp: Let_def two_point_def)
  qed
  show ?thesis
  proof (cases "2 \<le> GENE_LENGTH cfg")
    case True then show ?thesis by (rule one)
  next
    case False with zero show ?thesis by simp
  qed
qed




text \<open>The theorem on parents 0000 and 1111: cut points 1 and 3.\<close>

theorem crossover_pc_witness:
  "crossover tape_numpy \<lparr>POP_SIZE = 4, GENE_LENGTH = 4, MAX_GEN = 1, PC = 0, PM = 0,
       ELITE = 1, TOUR_K = 2, SEED = 1\<rparr> [0, 0, 0, 0] [1, 1, 1, 1] [0, 0, 2, 9] =
     Inr (([0, 0, 0, 0], [1, 1, 1, 1]), [0, 2, 9]) \<and>
   crossover tape_numpy \<lparr>POP_SIZE = 4, GENE_LENGTH = 4, MAX_GEN = 1, PC = 1, PM = 0,
       ELITE = 1, TOUR_K = 2, SEED = 1\<rparr> [0, 0, 0, 0] [1, 1, 1, 1] [0, 0, 2, 9] =
     Inr (([0, 1, 1, 0], [1, 0, 0, 1]), [9])"
  using crossover_pc [OF tape_numpy_ok, of
      "\<lparr>POP_SIZE = 4, GENE_LENGTH = 4, MAX_GEN = 1, PC = 0, PM = 0,
        ELITE = 1, TOUR_K = 2, SEED = 1\<rparr>" "[0, 0, 0, 0]" "[1, 1, 1, 1]" "[0, 0, 2, 9]"]
  by (simp add: tape_defs slice_def Let_def)

text \<open>
  Claim C2 as stated asks for distinct cut points \<open>p1 < p2\<close>. On the tape 0, 1, 1 the two
  integers drawn are both 2 and the children are the parents unchanged; and with
  \<open>GENE_LENGTH = 1\<close> the call \<^verbatim>\<open>rng.integers(1, 1, 2)\<close> raises.
\<close>

theorem crossover_equal_cuts:
  "fst (rng_integers tape_numpy 1 4 2 [1, 1]) = [2, 2] \<and>
   crossover tape_numpy \<lparr>POP_SIZE = 4, GENE_LENGTH = 4, MAX_GEN = 1, PC = 1, PM = 0,
       ELITE = 1, TOUR_K = 2, SEED = 1\<rparr> [0, 0, 0, 0] [1, 1, 1, 1] [0, 1, 1] =
     Inr (([0, 0, 0, 0], [1, 1, 1, 1]), []) \<and>
   crossover tape_numpy \<lparr>POP_SIZE = 4, GENE_LENGTH = 1, MAX_GEN = 1, PC = 1, PM = 0,
       ELITE = 1, TOUR_K = 2, SEED = 1\<rparr> [0] [1] [0, 1, 1] = Inl ValueError"
  by (simp add: crossover_def tape_defs two_point_def slice_def)

section \<open>Tournament selection\<close>

text \<open>
  Claim C7. For a population and its fitness sequence, with \<open>1 \<le> TOUR_K \<le> N\<close>:
  \<open>tournament_selection\<close> draws \<open>TOUR_K\<close> distinct indices below \<open>N\<close> and returns the genome
  at a drawn index whose fitness is the maximum among the drawn ones; when \<open>TOUR_K = N\<close>
  that fitness is the maximum of the whole population.
\<close>

theorem tournament_selection_best:
  assumes ok: "numpy_ok R" and k1: "1 \<le> TOUR_K cfg" and kn: "TOUR_K cfg \<le> length pop"
    and lf: "length fit = length pop"
  shows "(let drawn = rng_choice R (length pop) (TOUR_K cfg) g; c = fst drawn in
          length c = TOUR_K cfg \<and> distinct c \<and> (\<forall>i \<in> set c. i < length pop) \<and>
          (\<exists>j < length c.
             tournament_selection R cfg pop fit g = Inr (pop ! (c ! j), snd drawn) \<and>
             fit ! (c ! j) = Max ((\<lambda>i. fit ! i) ` set c) \<and>
             (TOUR_K cfg = length pop \<longrightarrow> fit ! (c ! j) = Max (set fit))))"
proof -
  obtain c g' where d: "rng_choice R (length pop) (TOUR_K cfg) g = (c, g')"
    by (cases "rng_choice R (length pop) (TOUR_K cfg) g")
  from ok kn have "length (fst (rng_choice R (length pop) (TOUR_K cfg) g)) = TOUR_K cfg"
    and "distinct (fst (rng_choice R (length pop) (TOUR_K cfg) g))"
    and "\<forall>i\<in>set (fst (rng_choice R (length pop) (TOUR_K cfg) g)). i < length pop"
    unfolding numpy_ok_def by blast+
  with d have len: "length c = TOUR_K cfg" and dist: "distinct c"
    and rng: "\<forall>i\<in>set c. i < length pop" by simp_all
  let ?cf = "map (\<lambda>i. fit ! i) c"
  have ne: "?cf \<noteq> []" using len k1 by auto
  have fi: "fancy_index fit c = Inr ?cf" using rng lf by (simp add: fancy_index_def)
  let ?j = "argmax ?cf"
  have j: "?j < length c" using argmax_less [OF ne] by simp
  have sel: "tournament_selection R cfg pop fit g = Inr (pop ! (c ! ?j), g')"
    using d fi ne kn by (simp add: tournament_selection_def)
  have "?cf ! ?j = Max (set ?cf)" using ne by (rule argmax_nth)
  then have best: "fit ! (c ! ?j) = Max ((\<lambda>i. fit ! i) ` set c)" using j by simp
  have all: "fit ! (c ! ?j) = Max (set fit)" if "TOUR_K cfg = length pop"
  proof -
    have "card (set c) = length pop" using dist len that by (simp add: distinct_card)
    moreover have "set c \<subseteq> {..<length pop}" using rng by auto
    ultimately have "set c = {..<length pop}" by (simp add: card_subset_eq)
    then have "(\<lambda>i. fit ! i) ` set c = set fit"
      using lf by (metis atLeast_upt map_nth set_map set_upt)
    with best show ?thesis by simp
  qed
  show ?thesis using d len dist rng j sel best all by (auto simp: Let_def)
qed

text \<open>The theorem on three genomes with a tournament of all three.\<close>

theorem tournament_selection_best_witness:
  "tournament_selection tape_numpy \<lparr>POP_SIZE = 3, GENE_LENGTH = 2, MAX_GEN = 1, PC = 0, PM = 0,
       ELITE = 1, TOUR_K = 3, SEED = 1\<rparr> [[0, 0], [1, 1], [0, 1]] [0, 2, 1] [5, 7] =
     Inr ([1, 1], [7])"
  using tournament_selection_best [OF tape_numpy_ok, of
      "\<lparr>POP_SIZE = 3, GENE_LENGTH = 2, MAX_GEN = 1, PC = 0, PM = 0,
        ELITE = 1, TOUR_K = 3, SEED = 1\<rparr>" "[[0, 0], [1, 1], [0, 1]]" "[0, 2, 1]" "[5, 7]"]
  by (simp add: tournament_selection_def tape_defs fancy_index_def
        rotate_drop_take argmax_def max_list_def)

section \<open>The rule engine\<close>

lemma OPS_None:
  "op \<notin> {''=='', ''!='', ''>'', ''>='', ''<'', ''<=''} \<Longrightarrow> OPS op = None"
  by (simp add: OPS_def)

lemma all_conditions_True_iff:
  "all_conditions facts cs = Inr True \<longleftrightarrow>
     (\<forall>c \<in> set cs. evaluate_condition facts c = Inr True)"
  by (induction cs) (auto split: sum.splits)

text \<open>
  Claim C10. For every fact set and every condition whose operator string is none of
  the six in \<open>OPS\<close>, \<open>evaluate_condition\<close> returns false and raises nothing; a rule
  holding such a condition never matches.
\<close>

theorem unsupported_operator:
  assumes "op \<notin> {''=='', ''!='', ''>'', ''>='', ''<'', ''<=''}"
  shows "evaluate_condition facts (field, op, v) = Inr False \<and>
         ((field, op, v) \<in> set (conditions r) \<longrightarrow> rule_matches facts r \<noteq> Inr True)"
proof -
  have e: "evaluate_condition facts (field, op, v) = Inr False"
    using OPS_None [OF assms] by (simp add: evaluate_condition_def split: option.splits)
  have "rule_matches facts r \<noteq> Inr True" if "(field, op, v) \<in> set (conditions r)"
  proof
    assume "rule_matches facts r = Inr True"
    then have "evaluate_condition facts (field, op, v) = Inr True"
      using that by (simp add: rule_matches_def all_conditions_True_iff)
    with e show False by simp
  qed
  with e show ?thesis by simp
qed

text \<open>The theorem on a rule whose second condition has the operator \<open>=~\<close>.\<close>

theorem unsupported_operator_witness:
  "evaluate_condition [''temperature'' \<mapsto> PInt 30] (''temperature'', ''=~'', PInt 30) = Inr False \<and>
   rule_matches [''temperature'' \<mapsto> PInt 30]
     \<lparr>name = ''r'', priority = 1,
      conditions = [(''temperature'', ''>='', PInt 20), (''temperature'', ''=~'', PInt 30)],
      action = default_action\<rparr> \<noteq> Inr True"
  using unsupported_operator [of "''=~''" "[''temperature'' \<mapsto> PInt 30]" "''temperature''" "PInt 30"
      "\<lparr>name = ''r'', priority = 1,
        conditions = [(''temperature'', ''>='', PInt 20), (''temperature'', ''=~'', PInt 30)],
        action = default_action\<rparr>"]
  by simp

lemma matching_filter:
  "\<forall>r \<in> set rules. \<exists>b. rule_matches facts r = Inr b \<Longrightarrow>
   matching facts rules = Inr (filter (\<lambda>r. rule_matches facts r = Inr True) rules)"
  by (induction rules) auto

lemma matching_raises:
  "rule_matches facts r = Inl e \<Longrightarrow> r \<in> set rules \<Longrightarrow> \<exists>e'. matching facts rules = Inl e'"
  by (induction rules) (auto split: sum.splits)

lemma last_filter_keep: "xs \<noteq> [] \<Longrightarrow> P (last xs) \<Longrightarrow> last (filter P xs) = last xs"
  by (cases xs rule: rev_cases) auto

lemma last_sort_key:
  assumes "xs \<noteq> []"
  shows "last (sort_key f xs) = last (filter (\<lambda>y. f y = Max (f ` set xs)) xs)"
proof -
  let ?s = "sort_key f xs"
  let ?m = "Max (f ` set xs)"
  have ne: "?s \<noteq> []" using assms by (metis length_sort length_0_conv)
  have srt: "sorted (map f ?s)" by (rule sorted_sort_key)
  have "\<forall>y \<in> set ?s. f y \<le> f (last ?s)"
  proof
    fix y assume "y \<in> set ?s"
    then obtain i where i: "i < length ?s" "?s ! i = y" by (metis in_set_conv_nth)
    have "map f ?s ! i \<le> map f ?s ! (length ?s - 1)"
      using srt i(1) by (intro sorted_nth_mono) auto
    then show "f y \<le> f (last ?s)" using i ne by (simp add: last_conv_nth)
  qed
  moreover have "last ?s \<in> set xs" using ne by (metis last_in_set set_sort)
  ultimately have "f (last ?s) = ?m"
    by (intro Max_eqI [symmetric]) auto
  then have "last (filter (\<lambda>y. f y = ?m) ?s) = last ?s"
    using ne by (simp add: last_filter_keep)
  then show ?thesis by (simp add: sort_key_stable)
qed

lemma hd_sort_reverse:
  assumes "xs \<noteq> []"
  shows "hd (sort_reverse key xs) = hd (filter (\<lambda>r. key r = Max (key ` set xs)) xs)"
proof -
  have "hd (sort_reverse key xs) = last (sort_key key (rev xs))"
    by (simp add: sort_reverse_def hd_rev)
  also have "\<dots> = last (filter (\<lambda>y. key y = Max (key ` set (rev xs))) (rev xs))"
    using assms by (intro last_sort_key) simp
  also have "\<dots> = hd (filter (\<lambda>r. key r = Max (key ` set xs)) xs)"
    by (simp add: rev_filter [symmetric] last_rev)
  finally show ?thesis .
qed


text \<open>
  Claim C9, as the code has it. A condition on a field missing from the facts is false;
  a rule matches exactly when each of its conditions evaluates to true; and, for every
  fact set and rule list on which no rule's evaluation raises, \<open>run_rules\<close> returns the
  default action when no rule matches and otherwise the action of the first declared
  among the matching rules of highest priority, with the matching rules in descending
  priority.
\<close>

theorem run_rules_highest_priority:
  assumes total: "\<forall>r \<in> set rules. \<exists>b. rule_matches facts r = Inr b"
  shows "(\<forall>field op v. facts field = None \<longrightarrow>
            evaluate_condition facts (field, op, v) = Inr False) \<and>
         (\<forall>r. rule_matches facts r = Inr True \<longleftrightarrow>
            (\<forall>c \<in> set (conditions r). evaluate_condition facts c = Inr True)) \<and>
         (let matched = filter (\<lambda>r. rule_matches facts r = Inr True) rules;
              top = Max (priority ` set matched)
          in run_rules facts rules =
               (if matched = [] then Inr (default_action, [])
                else Inr (action (hd (filter (\<lambda>r. priority r = top) matched)),
                          sort_reverse priority matched)))"
proof -
  have missing: "\<forall>field op v. facts field = None \<longrightarrow>
      evaluate_condition facts (field, op, v) = Inr False"
    by (simp add: evaluate_condition_def)
  have iff: "\<forall>r. rule_matches facts r = Inr True \<longleftrightarrow>
      (\<forall>c \<in> set (conditions r). evaluate_condition facts c = Inr True)"
    by (simp add: rule_matches_def all_conditions_True_iff)
  let ?matched = "filter (\<lambda>r. rule_matches facts r = Inr True) rules"
  have m: "matching facts rules = Inr ?matched"
    using total by (rule matching_filter)
  have run: "run_rules facts rules =
      (if ?matched = [] then Inr (default_action, [])
       else Inr (action (hd (filter (\<lambda>r. priority r = Max (priority ` set ?matched)) ?matched)),
                 sort_reverse priority ?matched))"
  proof (cases "?matched = []")
    case True
    then show ?thesis using m by (simp add: run_rules_def)
  next
    case False
    then show ?thesis
      using m hd_sort_reverse [OF False, of priority]
      by (simp add: run_rules_def Let_def)
  qed
  show ?thesis
    unfolding Let_def using missing iff run by blast
qed

lemmas rule_eval =
  DEFAULT_RULES_def rule_matches_def evaluate_condition_def OPS_def run_rules_def
  sort_reverse_def default_action_def

text \<open>The theorem on the rule base of the module: three rules match, priority 85 wins.\<close>

theorem run_rules_highest_priority_witness:
  "map_sum id (\<lambda>(a, fired). (mode a, fan_speed a, setpoint a, map priority fired))
     (run_rules hot_night DEFAULT_RULES) = Inr (''COOL'', ''HIGH'', Some 23, [85, 80, 75])"
proof -
  have "\<forall>r \<in> set DEFAULT_RULES. \<exists>b. rule_matches hot_night r = Inr b"
    by (auto simp: rule_eval hot_night_def)
  from run_rules_highest_priority [OF this] show ?thesis
    by (simp add: rule_eval hot_night_def)
qed

text \<open>
  Claim C9 as stated covers every fact set. With a temperature that is a string, no rule
  matches, and the last rule of the module orders that string against 22: \<open>run_rules\<close>
  raises instead of returning the default action.
\<close>

theorem run_rules_type_error:
  "run_rules [''temperature'' \<mapsto> PStr ''hot''] DEFAULT_RULES = Inl TypeError"
  by (simp add: rule_eval)

section \<open>What the operators return\<close>

lemma reshape_length: "length (reshape n l xs) = n"
  by (induction n arbitrary: xs) simp_all

lemma reshape_rows: "n * l \<le> length xs \<Longrightarrow> \<forall>r \<in> set (reshape n l xs). length r = l"
proof (induction n arbitrary: xs)
  case 0
  show ?case by simp
next
  case (Suc n)
  have "Suc n * l = l + n * l" by simp
  with Suc.prems have l: "l \<le> length xs" and rest: "n * l \<le> length xs - l" by linarith+
  have "\<forall>r \<in> set (reshape n l (drop l xs)). length r = l"
    by (rule Suc.IH) (simp add: rest)
  moreover have "length (take l xs) = l" using l by simp
  ultimately show ?case by simp
qed

lemma init_population_shape:
  assumes "numpy_ok R"
  shows "\<exists>pop g'. init_population R cfg g = Inr (pop, g') \<and> length pop = POP_SIZE cfg \<and>
           (\<forall>r \<in> set pop. length r = GENE_LENGTH cfg)"
proof -
  obtain bits g' where d: "rng_integers R 0 2 (POP_SIZE cfg * GENE_LENGTH cfg) g = (bits, g')"
    by (cases "rng_integers R 0 2 (POP_SIZE cfg * GENE_LENGTH cfg) g")
  from assms have "length (fst (rng_integers R 0 2 (POP_SIZE cfg * GENE_LENGTH cfg) g)) =
      POP_SIZE cfg * GENE_LENGTH cfg"
    unfolding numpy_ok_def by (metis zero_less_numeral)
  with d have "length bits = POP_SIZE cfg * GENE_LENGTH cfg" by simp
  then show ?thesis
    using d reshape_rows [of "POP_SIZE cfg" "GENE_LENGTH cfg" bits]
    by (simp add: init_population_def reshape_length)
qed

lemma mutation_length:
  assumes "numpy_ok R" and "mutation R cfg c g = Inr (m, g')"
  shows "length m = GENE_LENGTH cfg"
proof -
  from assms(1) have "length (fst (rng_random_n R (GENE_LENGTH cfg) g)) = GENE_LENGTH cfg"
    unfolding numpy_ok_def by blast
  with assms(2) show ?thesis
    by (auto simp: mutation_def Let_def split: prod.splits if_splits)
qed

lemma mutation_returns:
  assumes "numpy_ok R" and "length c = GENE_LENGTH cfg"
  shows "\<exists>m g'. mutation R cfg c g = Inr (m, g')"
proof -
  from assms(1) have "length (fst (rng_random_n R (GENE_LENGTH cfg) g)) = GENE_LENGTH cfg"
    unfolding numpy_ok_def by blast
  with assms(2) show ?thesis
    by (auto simp: mutation_def Let_def split: prod.splits)
qed

lemma two_point_length:
  "length a = n \<Longrightarrow> length b = n \<Longrightarrow> p \<le> q \<Longrightarrow> q \<le> n \<Longrightarrow> length (two_point a b p q) = n"
  by (simp add: two_point_def slice_def)

lemma crossover_returns:
  assumes ok: "numpy_ok R" and L: "2 \<le> GENE_LENGTH cfg"
    and la: "length a = GENE_LENGTH cfg" and lb: "length b = GENE_LENGTH cfg"
  shows "\<exists>c1 c2 g'. crossover R cfg a b g = Inr ((c1, c2), g') \<and>
           length c1 = GENE_LENGTH cfg \<and> length c2 = GENE_LENGTH cfg"
proof -
  obtain u g1 where r: "rng_random R g = (u, g1)" by (cases "rng_random R g")
  obtain cuts g2 where d: "rng_integers R 1 (GENE_LENGTH cfg) 2 g1 = (cuts, g2)"
    by (cases "rng_integers R 1 (GENE_LENGTH cfg) 2 g1")
  from ok L have "length (fst (rng_integers R 1 (GENE_LENGTH cfg) 2 g1)) = 2"
    and "\<forall>x\<in>set (fst (rng_integers R 1 (GENE_LENGTH cfg) 2 g1)). 1 \<le> x \<and> x < GENE_LENGTH cfg"
    unfolding numpy_ok_def by (metis less_eq_Suc_le numeral_2_eq_2 One_nat_def)+
  with d have len: "length cuts = 2" and rng: "\<forall>x\<in>set cuts. 1 \<le> x \<and> x < GENE_LENGTH cfg"
    by simp_all
  from len obtain x y where c: "cuts = [x, y]"
    by (metis (no_types, opaque_lifting) length_0_conv length_Suc_conv numeral_2_eq_2)
  from rng c have b: "x < GENE_LENGTH cfg" "y < GENE_LENGTH cfg" by simp_all
  have "length (two_point a b (min x y) (max x y)) = GENE_LENGTH cfg"
    and "length (two_point b a (min x y) (max x y)) = GENE_LENGTH cfg"
    using la lb b by (simp_all add: two_point_length)
  then show ?thesis
    using r d c L la lb by (simp add: crossover_def sort_two del: sort_key_simps)
qed

lemma tournament_returns:
  assumes ok: "numpy_ok R" and k1: "1 \<le> TOUR_K cfg" and kn: "TOUR_K cfg \<le> length pop"
    and lf: "length fit = length pop"
  shows "\<exists>i g'. tournament_selection R cfg pop fit g = Inr (pop ! i, g') \<and> i < length pop"
proof -
  obtain c g' where d: "rng_choice R (length pop) (TOUR_K cfg) g = (c, g')"
    by (cases "rng_choice R (length pop) (TOUR_K cfg) g")
  from ok kn have "length (fst (rng_choice R (length pop) (TOUR_K cfg) g)) = TOUR_K cfg"
    and "\<forall>i\<in>set (fst (rng_choice R (length pop) (TOUR_K cfg) g)). i < length pop"
    unfolding numpy_ok_def by blast+
  with d have len: "length c = TOUR_K cfg" and rng: "\<forall>i\<in>set c. i < length pop" by simp_all
  let ?cf = "map (\<lambda>i. fit ! i) c"
  have ne: "?cf \<noteq> []" using len k1 by auto
  have fi: "fancy_index fit c = Inr ?cf" using rng lf by (simp add: fancy_index_def)
  have j: "argmax ?cf < length c" using argmax_less [OF ne] by simp
  then have "c ! argmax ?cf < length pop" using rng by simp
  moreover have "tournament_selection R cfg pop fit g = Inr (pop ! (c ! argmax ?cf), g')"
    using d fi ne kn by (simp add: tournament_selection_def)
  ultimately show ?thesis by blast
qed

section \<open>The offspring loop and the elites\<close>

lemma offspring_done:
  "\<not> int (length np) < int (POP_SIZE cfg) - int (ELITE cfg) \<Longrightarrow>
   offspring R cfg pop fit np g = Inr (np, g)"
  by (subst offspring.simps) simp

lemma offspring_shape:
  "numpy_ok R \<Longrightarrow> length np \<le> POP_SIZE cfg - ELITE cfg \<Longrightarrow>
         \<forall>x \<in> set np. length x = GENE_LENGTH cfg \<Longrightarrow>
         offspring R cfg pop fit np g = Inr (res, g') \<Longrightarrow>
         length res = POP_SIZE cfg - ELITE cfg \<and> (\<forall>x \<in> set res. length x = GENE_LENGTH cfg)"
proof (induction R cfg pop fit np g rule: offspring.induct)
  case (1 R cfg pop fit np g)
  note ok1 = "1.prems"(1)
  show ?case
  proof (cases "int (length np) < int (POP_SIZE cfg) - int (ELITE cfg)")
    case False
    with "1.prems" have "res = np" by (simp add: offspring_done)
    moreover from False have "POP_SIZE cfg - ELITE cfg \<le> length np" by linarith
    ultimately show ?thesis using "1.prems" by simp
  next
    case True
    from "1.prems"(4) True obtain parent1 g1 parent2 g2 child1 child2 g3 m1 g4 where
      t1: "tournament_selection R cfg pop fit g = Inr (parent1, g1)" and
      t2: "tournament_selection R cfg pop fit g1 = Inr (parent2, g2)" and
      cr: "crossover R cfg parent1 parent2 g2 = Inr ((child1, child2), g3)" and
      mu: "mutation R cfg child1 g3 = Inr (m1, g4)"
      by (subst (asm) offspring.simps) (auto split: sum.splits prod.splits)
    have l1: "length m1 = GENE_LENGTH cfg" using ok1 mu by (rule mutation_length)
    show ?thesis
    proof (cases "int (length (np @ [m1])) < int (POP_SIZE cfg) - int (ELITE cfg)")
      case False
      have rec: "offspring R cfg pop fit (np @ [m1]) g4 = Inr (res, g')"
        using "1.prems"(4) True t1 t2 cr mu False
        by (subst (asm) offspring.simps) simp
      have "length (np @ [m1]) \<le> POP_SIZE cfg - ELITE cfg" using True by simp
      moreover have "\<forall>x \<in> set (np @ [m1]). length x = GENE_LENGTH cfg"
        using "1.prems"(3) l1 by simp
      ultimately show ?thesis
        using "1.IH"(2) [OF True t1 refl t2 refl cr refl refl mu refl False ok1 _ _ rec]
        by blast
    next
      case again: True
      from "1.prems"(4) True t1 t2 cr mu again obtain m2 g5 where
        mu2: "mutation R cfg child2 g4 = Inr (m2, g5)" and
        rec: "offspring R cfg pop fit (np @ [m1, m2]) g5 = Inr (res, g')"
        by (subst (asm) offspring.simps) (auto split: sum.splits prod.splits)
      have l2: "length m2 = GENE_LENGTH cfg" using ok1 mu2 by (rule mutation_length)
      have "length (np @ [m1, m2]) \<le> POP_SIZE cfg - ELITE cfg" using again by simp
      moreover have "\<forall>x \<in> set (np @ [m1, m2]). length x = GENE_LENGTH cfg"
        using "1.prems"(3) l1 l2 by simp
      ultimately show ?thesis
        using "1.IH"(1) [OF True t1 refl t2 refl cr refl refl mu refl again mu2 refl ok1 _ _ rec]
        by blast
    qed
  qed
qed


lemma offspring_returns:
  "numpy_ok R \<Longrightarrow> 2 \<le> GENE_LENGTH cfg \<Longrightarrow> 1 \<le> TOUR_K cfg \<Longrightarrow> TOUR_K cfg \<le> length pop \<Longrightarrow>
   length fit = length pop \<Longrightarrow> \<forall>x \<in> set pop. length x = GENE_LENGTH cfg \<Longrightarrow>
   \<exists>res g'. offspring R cfg pop fit np g = Inr (res, g')"
proof (induction R cfg pop fit np g rule: offspring.induct)
  case (1 R cfg pop fit np g)
  note ok = "1.prems"(1) and L = "1.prems"(2) and k1 = "1.prems"(3) and kn = "1.prems"(4)
    and lf = "1.prems"(5) and rows = "1.prems"(6)
  show ?case
  proof (cases "int (length np) < int (POP_SIZE cfg) - int (ELITE cfg)")
    case False
    then show ?thesis by (simp add: offspring_done)
  next
    case True
    obtain i g1 where t1: "tournament_selection R cfg pop fit g = Inr (pop ! i, g1)"
      and i: "i < length pop"
      using tournament_returns [OF ok k1 kn lf] by blast
    obtain j g2 where t2: "tournament_selection R cfg pop fit g1 = Inr (pop ! j, g2)"
      and j: "j < length pop"
      using tournament_returns [OF ok k1 kn lf] by blast
    have li: "length (pop ! i) = GENE_LENGTH cfg" and lj: "length (pop ! j) = GENE_LENGTH cfg"
      using rows i j by simp_all
    obtain c1 c2 g3 where cr: "crossover R cfg (pop ! i) (pop ! j) g2 = Inr ((c1, c2), g3)"
      and lc1: "length c1 = GENE_LENGTH cfg" and lc2: "length c2 = GENE_LENGTH cfg"
      using crossover_returns [OF ok L li lj] by blast
    obtain m1 g4 where mu: "mutation R cfg c1 g3 = Inr (m1, g4)"
      using mutation_returns [OF ok lc1] by blast
    show ?thesis
    proof (cases "int (length (np @ [m1])) < int (POP_SIZE cfg) - int (ELITE cfg)")
      case False
      have "offspring R cfg pop fit np g = offspring R cfg pop fit (np @ [m1]) g4"
        using True t1 t2 cr mu False by (subst offspring.simps) simp
      moreover have "\<exists>res g'. offspring R cfg pop fit (np @ [m1]) g4 = Inr (res, g')"
        by (rule "1.IH"(2) [OF True t1 refl t2 refl cr refl refl mu refl False ok L k1 kn lf rows])
      ultimately show ?thesis by simp
    next
      case again: True
      obtain m2 g5 where mu2: "mutation R cfg c2 g4 = Inr (m2, g5)"
        using mutation_returns [OF ok lc2] by blast
      have "offspring R cfg pop fit np g = offspring R cfg pop fit (np @ [m1, m2]) g5"
        using True t1 t2 cr mu again mu2 by (subst offspring.simps) simp
      moreover have "\<exists>res g'. offspring R cfg pop fit (np @ [m1, m2]) g5 = Inr (res, g')"
        by (rule "1.IH"(1) [OF True t1 refl t2 refl cr refl refl mu refl again mu2 refl
              ok L k1 kn lf rows])
      ultimately show ?thesis by simp
    qed
  qed
qed

lemma argsort_length: "numpy_ok R \<Longrightarrow> length (np_argsort R fit) = length fit"
proof -
  assume "numpy_ok R"
  then have d: "distinct (np_argsort R fit)" and s: "set (np_argsort R fit) = {..<length fit}"
    unfolding numpy_ok_def by blast+
  from d have "length (np_argsort R fit) = card (set (np_argsort R fit))"
    by (simp add: distinct_card)
  with s show ?thesis by simp
qed

lemma elite_idx_range:
  assumes "numpy_ok R"
  shows "\<forall>i \<in> set (elite_idx R cfg fit). i < length fit"
proof -
  from assms have s: "set (np_argsort R fit) = {..<length fit}"
    unfolding numpy_ok_def by blast
  have "set (elite_idx R cfg fit) \<subseteq> set (np_argsort R fit)"
    by (auto simp: elite_idx_def last_slice_def dest: in_set_dropD)
  with s show ?thesis by auto
qed

lemma elite_idx_top:
  assumes ok: "numpy_ok R" and e1: "1 \<le> ELITE cfg" and en: "ELITE cfg \<le> length fit"
  shows "length (elite_idx R cfg fit) = ELITE cfg \<and> distinct (elite_idx R cfg fit) \<and>
         (\<forall>i \<in> set (elite_idx R cfg fit). \<forall>j < length fit.
            j \<notin> set (elite_idx R cfg fit) \<longrightarrow> fit ! j \<le> fit ! i)"
proof -
  let ?s = "np_argsort R fit"
  let ?k = "length fit - ELITE cfg"
  from ok have d: "distinct ?s" and s: "set ?s = {..<length fit}"
    and srt: "sorted (map (\<lambda>i. fit ! i) ?s)"
    unfolding numpy_ok_def by blast+
  have len: "length ?s = length fit" using ok by (rule argsort_length)
  have el: "elite_idx R cfg fit = drop ?k ?s"
    using e1 by (simp add: elite_idx_def last_slice_def len)
  have l: "length (elite_idx R cfg fit) = ELITE cfg" using en by (simp add: el len)
  have di: "distinct (elite_idx R cfg fit)" using d by (simp add: el)
  have "sorted (map (\<lambda>i. fit ! i) (take ?k ?s) @ map (\<lambda>i. fit ! i) (drop ?k ?s))"
    using srt by (simp flip: map_append)
  then have le: "\<forall>x \<in> set (take ?k ?s). \<forall>y \<in> set (drop ?k ?s). fit ! x \<le> fit ! y"
    by (simp add: sorted_append)
  have top: "fit ! j \<le> fit ! i"
    if i: "i \<in> set (elite_idx R cfg fit)" and j: "j < length fit"
      and nj: "j \<notin> set (elite_idx R cfg fit)" for i j
  proof -
    from j s have "j \<in> set (take ?k ?s @ drop ?k ?s)" by simp
    with nj el have "j \<in> set (take ?k ?s)" by (simp only: set_append) blast
    with le i el show ?thesis by simp
  qed
  show ?thesis using l di top by blast
qed

lemma elite_idx_best:
  assumes ok: "numpy_ok R" and e1: "1 \<le> ELITE cfg" and ne: "fit \<noteq> []"
  shows "\<exists>i \<in> set (elite_idx R cfg fit). i < length fit \<and> fit ! i = Max (set fit)"
proof -
  let ?s = "np_argsort R fit"
  from ok have s: "set ?s = {..<length fit}" and srt: "sorted (map (\<lambda>i. fit ! i) ?s)"
    unfolding numpy_ok_def by blast+
  have len: "length ?s = length fit" using ok by (rule argsort_length)
  have sne: "?s \<noteq> []" using ne len by auto
  have "length fit - ELITE cfg < length ?s" using e1 ne len by (cases fit) auto
  then have "last (drop (length fit - ELITE cfg) ?s) = last ?s"
    and "drop (length fit - ELITE cfg) ?s \<noteq> []" by simp_all
  then have mem: "last ?s \<in> set (elite_idx R cfg fit)"
    using e1 by (metis elite_idx_def last_slice_def last_in_set len not_one_le_zero)
  have lt: "last ?s < length fit" using s sne last_in_set [of ?s] by blast
  have "fit ! j \<le> fit ! last ?s" if "j < length fit" for j
  proof -
    from that s have "j \<in> set ?s" by simp
    then obtain p where p: "p < length ?s" "?s ! p = j" by (metis in_set_conv_nth)
    have "map (\<lambda>i. fit ! i) ?s ! p \<le> map (\<lambda>i. fit ! i) ?s ! (length ?s - 1)"
      using srt p(1) by (intro sorted_nth_mono) auto
    then show ?thesis using p sne by (simp add: last_conv_nth)
  qed
  then have "\<forall>x \<in> set fit. x \<le> fit ! last ?s" by (metis in_set_conv_nth)
  moreover have "fit ! last ?s \<in> set fit" using lt by simp
  ultimately have "Max (set fit) = fit ! last ?s" by (intro Max_eqI) auto
  with mem lt show ?thesis by auto
qed

lemma generation_Inr:
  assumes "generation R cfg gen pop g = Inr (r, pop', g')"
  shows "pop \<noteq> [] \<and>
         r = \<lparr>Generation = gen + 1, Best_Fitness = max_list (fitness pop),
              Average_Fitness = mean (fitness pop)\<rparr> \<and>
         (\<exists>new. offspring R cfg pop (fitness pop) [] g = Inr (new, g') \<and>
            pop' = (if new = [] then [[]] else new) @
                     map (\<lambda>i. pop ! i) (elite_idx R cfg (fitness pop)))"
  using assms
  by (auto simp: generation_def Let_def fancy_index_def vstack_def fitness_def
      split: sum.splits prod.splits if_splits)

section \<open>One generation\<close>

lemma generation_shaped:
  assumes ok: "numpy_ok R" and e1: "1 \<le> ELITE cfg" and en: "ELITE cfg < POP_SIZE cfg"
    and sh: "shaped cfg pop" and gen: "generation R cfg gen pop g = Inr (r, pop', g')"
  shows "shaped cfg pop'"
proof -
  let ?fit = "fitness pop"
  let ?idx = "elite_idx R cfg ?fit"
  from generation_Inr [OF gen] obtain new where
    off: "offspring R cfg pop ?fit [] g = Inr (new, g')" and
    p': "pop' = (if new = [] then [[]] else new) @ map (\<lambda>i. pop ! i) ?idx"
    by blast
  have lf: "length ?fit = POP_SIZE cfg" using sh by (simp add: fitness_def shaped_def)
  have new: "length new = POP_SIZE cfg - ELITE cfg \<and> (\<forall>x \<in> set new. length x = GENE_LENGTH cfg)"
    using ok _ _ off by (rule offspring_shape) simp_all
  then have nne: "new \<noteq> []" using en by auto
  have "length ?idx = ELITE cfg"
    using elite_idx_top [OF ok e1, of ?fit] en lf by simp
  moreover have "\<forall>i \<in> set ?idx. i < length pop"
    using elite_idx_range [OF ok, of cfg ?fit] by (simp add: fitness_def)
  ultimately show ?thesis
    using p' nne new sh en by (auto simp: shaped_def)
qed

lemma pop_trace_shaped:
  assumes ok: "numpy_ok R" and e1: "1 \<le> ELITE cfg" and en: "ELITE cfg < POP_SIZE cfg"
  shows "shaped cfg pop \<Longrightarrow> \<forall>p \<in> set (pop_trace R cfg gens pop g). shaped cfg p"
proof (induction gens arbitrary: pop g)
  case Nil
  then show ?case by simp
next
  case (Cons gen gens)
  show ?case
  proof (cases "generation R cfg gen pop g")
    case (Inl e)
    then show ?thesis using Cons.prems by simp
  next
    case (Inr t)
    then obtain r pop' g' where t: "generation R cfg gen pop g = Inr (r, pop', g')"
      by (cases t) auto
    have "shaped cfg pop'" using ok e1 en Cons.prems t by (rule generation_shaped)
    then have "\<forall>p \<in> set (pop_trace R cfg gens pop' g'). shaped cfg p" by (rule Cons.IH)
    then show ?thesis using Cons.prems t by simp
  qed
qed

lemma generation_best:
  assumes ok: "numpy_ok R" and e1: "1 \<le> ELITE cfg"
    and gen: "generation R cfg gen pop g = Inr (r, pop', g')"
  shows "pop' \<noteq> [] \<and> Max (set (fitness pop)) \<le> Max (set (fitness pop'))"
proof -
  let ?fit = "fitness pop"
  let ?idx = "elite_idx R cfg ?fit"
  from generation_Inr [OF gen] obtain new where
    ne: "pop \<noteq> []" and
    p': "pop' = (if new = [] then [[]] else new) @ map (\<lambda>i. pop ! i) ?idx"
    by blast
  have fne: "?fit \<noteq> []" using ne by (simp add: fitness_def)
  from elite_idx_best [OF ok e1 fne] obtain i where
    i: "i \<in> set ?idx" "i < length ?fit" "?fit ! i = Max (set ?fit)" by blast
  have "pop ! i \<in> set pop'" using p' i(1) by auto
  then have "sum_list (pop ! i) \<in> set (fitness pop')" by (simp add: fitness_def)
  moreover have "sum_list (pop ! i) = ?fit ! i" using i(2) by (simp add: fitness_def)
  ultimately have "Max (set ?fit) \<le> Max (set (fitness pop'))" using i(3) by simp
  moreover have "pop' \<noteq> []" using p' by simp
  ultimately show ?thesis by simp
qed

lemma ga_loop_monotone:
  assumes ok: "numpy_ok R" and e1: "1 \<le> ELITE cfg"
  shows "ga_loop R cfg gens pop hist g = Inr (hist', pop', g') \<Longrightarrow>
         \<exists>recs. hist' = hist @ recs \<and> sorted (map Best_Fitness recs) \<and>
           (\<forall>r \<in> set recs. Max (set (fitness pop)) \<le> Best_Fitness r) \<and>
           (pop \<noteq> [] \<longrightarrow> pop' \<noteq> [] \<and> Max (set (fitness pop)) \<le> Max (set (fitness pop')))"
proof (induction gens arbitrary: pop hist g)
  case Nil
  then show ?case by simp
next
  case (Cons gen gens)
  from Cons.prems obtain r pop1 g1 where
    gen: "generation R cfg gen pop g = Inr (r, pop1, g1)" and
    rest: "ga_loop R cfg gens pop1 (hist @ [r]) g1 = Inr (hist', pop', g')"
    by (auto split: sum.splits)
  from generation_Inr [OF gen] have ne: "pop \<noteq> []"
    and r: "Best_Fitness r = max_list (fitness pop)" by simp_all
  then have rb: "Best_Fitness r = Max (set (fitness pop))"
    by (simp add: max_list_Max fitness_def)
  from generation_best [OF ok e1 gen] have ne1: "pop1 \<noteq> []"
    and up: "Max (set (fitness pop)) \<le> Max (set (fitness pop1))" by simp_all
  from Cons.IH [OF rest] obtain recs where
    h: "hist' = (hist @ [r]) @ recs" and s: "sorted (map Best_Fitness recs)" and
    lb: "\<forall>x \<in> set recs. Max (set (fitness pop1)) \<le> Best_Fitness x" and
    fin: "pop' \<noteq> [] \<and> Max (set (fitness pop1)) \<le> Max (set (fitness pop'))"
    using ne1 by blast
  have "hist' = hist @ (r # recs)" using h by simp
  moreover have "sorted (map Best_Fitness (r # recs))"
    using s lb rb up by (auto intro: order_trans)
  moreover have "\<forall>x \<in> set (r # recs). Max (set (fitness pop)) \<le> Best_Fitness x"
    using lb rb up by (auto intro: order_trans)
  moreover have "pop' \<noteq> [] \<and> Max (set (fitness pop)) \<le> Max (set (fitness pop'))"
    using fin up by (auto intro: order_trans)
  ultimately show ?case by blast
qed

section \<open>The loop over the generations\<close>

lemma ga_loop_trace:
  "ga_loop R cfg gens pop hist g = Inr (hist', pop', g') \<Longrightarrow>
   length (pop_trace R cfg gens pop g) = Suc (length gens) \<and>
   hist' = hist @ map (\<lambda>(gen, p). \<lparr>Generation = gen + 1, Best_Fitness = Max (set (fitness p)),
                                   Average_Fitness = mean (fitness p)\<rparr>)
                   (zip gens (pop_trace R cfg gens pop g))"
proof (induction gens arbitrary: pop hist g)
  case Nil
  then show ?case by simp
next
  case (Cons gen gens)
  from Cons.prems obtain r pop1 g1 where
    gen: "generation R cfg gen pop g = Inr (r, pop1, g1)" and
    rest: "ga_loop R cfg gens pop1 (hist @ [r]) g1 = Inr (hist', pop', g')"
    by (auto split: sum.splits)
  from generation_Inr [OF gen] have ne: "pop \<noteq> []"
    and r: "r = \<lparr>Generation = gen + 1, Best_Fitness = max_list (fitness pop),
                 Average_Fitness = mean (fitness pop)\<rparr>" by simp_all
  have rb: "max_list (fitness pop) = Max (set (fitness pop))"
    using ne by (simp add: max_list_Max fitness_def)
  from Cons.IH [OF rest] gen r rb show ?case by simp
qed

lemma generation_returns:
  assumes ok: "numpy_ok R" and L: "2 \<le> GENE_LENGTH cfg" and k1: "1 \<le> TOUR_K cfg"
    and kn: "TOUR_K cfg \<le> POP_SIZE cfg" and en: "ELITE cfg < POP_SIZE cfg"
    and big: "POP_SIZE cfg \<le> length pop" and rows: "\<forall>x \<in> set pop. length x = GENE_LENGTH cfg"
  shows "\<exists>r pop' g'. generation R cfg gen pop g = Inr (r, pop', g') \<and>
           POP_SIZE cfg \<le> length pop' \<and> (\<forall>x \<in> set pop'. length x = GENE_LENGTH cfg)"
proof -
  let ?fit = "fitness pop"
  let ?idx = "elite_idx R cfg ?fit"
  let ?elites = "map (\<lambda>i. pop ! i) ?idx"
  have lf: "length ?fit = length pop" by (simp add: fitness_def)
  have fne: "?fit \<noteq> []" using big en lf by auto
  have inr: "\<forall>i \<in> set ?idx. i < length pop" using elite_idx_range [OF ok, of cfg ?fit] lf by simp
  then have fi: "fancy_index pop ?idx = Inr ?elites" by (simp add: fancy_index_def)
  have erows: "\<forall>x \<in> set ?elites. length x = GENE_LENGTH cfg" using inr rows by simp
  have "TOUR_K cfg \<le> length pop" using kn big by simp
  from offspring_returns [OF ok L k1 this lf rows] obtain new g' where
    off: "offspring R cfg pop ?fit [] g = Inr (new, g')" by blast
  have new: "length new = POP_SIZE cfg - ELITE cfg \<and> (\<forall>x \<in> set new. length x = GENE_LENGTH cfg)"
    using ok _ _ off by (rule offspring_shape) simp_all
  then have nne: "new \<noteq> []" using en by auto
  then have "hd new \<in> set new" by simp
  with new have "length (hd new) = GENE_LENGTH cfg" by blast
  with new erows nne have vs: "vstack new ?elites = Inr (new @ ?elites)"
    by (auto simp: vstack_def)
  have gen: "generation R cfg gen pop g =
      Inr (\<lparr>Generation = gen + 1, Best_Fitness = max_list ?fit, Average_Fitness = mean ?fit\<rparr>,
           new @ ?elites, g')"
    using fne fi off vs by (simp add: generation_def Let_def)
  have "ELITE cfg \<le> length ?idx"
  proof (cases "ELITE cfg = 0")
    case True then show ?thesis by simp
  next
    case False
    then have "1 \<le> ELITE cfg" by simp
    moreover have "ELITE cfg \<le> length ?fit" using en big lf by simp
    ultimately show ?thesis using elite_idx_top [OF ok, of cfg ?fit] by simp
  qed
  then have "POP_SIZE cfg \<le> length (new @ ?elites)" using new by simp
  moreover have "\<forall>x \<in> set (new @ ?elites). length x = GENE_LENGTH cfg" using new erows by auto
  ultimately show ?thesis using gen by blast
qed

lemma ga_loop_returns:
  assumes ok: "numpy_ok R" and L: "2 \<le> GENE_LENGTH cfg" and k1: "1 \<le> TOUR_K cfg"
    and kn: "TOUR_K cfg \<le> POP_SIZE cfg" and en: "ELITE cfg < POP_SIZE cfg"
  shows "POP_SIZE cfg \<le> length pop \<Longrightarrow> \<forall>x \<in> set pop. length x = GENE_LENGTH cfg \<Longrightarrow>
         \<exists>hist' pop' g'. ga_loop R cfg gens pop hist g = Inr (hist', pop', g') \<and>
           POP_SIZE cfg \<le> length pop'"
proof (induction gens arbitrary: pop hist g)
  case Nil
  then show ?case by simp
next
  case (Cons gen gens)
  from generation_returns [OF ok L k1 kn en Cons.prems] obtain r pop1 g1 where
    gen: "generation R cfg gen pop g = Inr (r, pop1, g1)" and
    big: "POP_SIZE cfg \<le> length pop1" and rows: "\<forall>x \<in> set pop1. length x = GENE_LENGTH cfg"
    by blast
  from Cons.IH [OF big rows] gen show ?case by simp
qed

lemma run_ga_returns:
  assumes ok: "numpy_ok R" and L: "2 \<le> GENE_LENGTH cfg" and k1: "1 \<le> TOUR_K cfg"
    and kn: "TOUR_K cfg \<le> POP_SIZE cfg" and en: "ELITE cfg < POP_SIZE cfg"
  shows "\<exists>history best best_fit g'. run_ga R cfg g = Inr ((history, best, best_fit), g')"
proof -
  from init_population_shape [OF ok] obtain pop0 g0 where
    init: "init_population R cfg g = Inr (pop0, g0)" and
    n: "length pop0 = POP_SIZE cfg" and rows: "\<forall>r \<in> set pop0. length r = GENE_LENGTH cfg"
    by blast
  from n have big: "POP_SIZE cfg \<le> length pop0" by simp
  from ga_loop_returns [OF ok L k1 kn en big rows] obtain history pop g1 where
    loop: "ga_loop R cfg [0..<MAX_GEN cfg] pop0 [] g0 = Inr (history, pop, g1)" and
    pb: "POP_SIZE cfg \<le> length pop" by blast
  from pb en have "fitness pop \<noteq> []" by (auto simp: fitness_def)
  then show ?thesis using init loop by (simp add: run_ga_def Let_def)
qed

section \<open>Evaluating the model on the stand-in generator\<close>

lemma reshape_numeral:
  "reshape (numeral n) l xs = take l xs # reshape (pred_numeral n) l (drop l xs)"
  by (simp add: numeral_eq_Suc)

lemma suc_forms:
  "Suc (Suc 0) = 2" "Suc (Suc (Suc 0)) = 3" "Suc (Suc (Suc (Suc 0))) = 4"
  by arith+

lemma mod_small:
  "m mod Suc (Suc 0) = m mod 2"
  "m mod Suc (Suc (Suc 0)) = m mod 3"
  "m mod Suc (Suc (Suc (Suc 0))) = m mod 4"
  using suc_forms by presburger+

lemma upt_numeral: "[m..<numeral n] = [m..<Suc (pred_numeral n)]"
  by (simp only: numeral_eq_Suc)

lemmas ga_eval =
  populations_def run_ga_def execution_def init_population_def generation_def offspring.simps
  tournament_selection_def crossover_def mutation_def vstack_def fitness_def elite_idx_def
  last_slice_def fancy_index_def argmax_def max_list_def mean_def two_point_def slice_def
  tape_defs rotate_drop_take Let_def reshape_numeral mod_small upt_numeral

lemma no_elite_generation:
  "generation tape_numpy no_elite_config 0 [[1, 0], [1, 1]] [3, 4, 5, 6, 7, 8, 9] =
     Inr (\<lparr>Generation = 1, Best_Fitness = 2, Average_Fitness = 3 / 2\<rparr>,
          [[1, 1], [1, 0], [1, 0], [1, 1]], [])"
  by (simp add: ga_eval no_elite_config_def)

lemma demo_populations:
  "populations tape_numpy demo_config demo_tape =
    [[[0, 1, 0, 1], [1, 0, 1, 0], [1, 1, 0, 1], [0, 1, 1, 0]],
     [[1, 1, 0, 1], [1, 1, 0, 1], [1, 1, 0, 1], [1, 1, 0, 1]],
     [[0, 1, 0, 1], [1, 1, 0, 1], [1, 1, 0, 0], [1, 1, 0, 1]]]"
  by (simp add: ga_eval demo_config_def demo_tape_def)

lemma demo_run:
  "run_ga tape_numpy demo_config demo_tape =
     Inr (([\<lparr>Generation = 1, Best_Fitness = 3, Average_Fitness = 9 / 4\<rparr>,
            \<lparr>Generation = 2, Best_Fitness = 3, Average_Fitness = 3\<rparr>],
           [1, 1, 0, 1], 3),
          [862, 647, 432, 217, 2, 796, 581, 366])"
  by (simp add: ga_eval demo_config_def demo_tape_def)

end
